theory Spec2Isabelle
  imports Main
begin

section \<open>Strings of code points\<close>

text \<open>
  A Python \<open>str\<close> is a sequence of Unicode code points, so it is modelled as a list of
  integers. Literals of the source are written \<open>ustr ''...''\<close>; the bullet
  U+2022 of the bullet patterns is the number 8226.

  What Python does on ASCII is written out below. What it does on code points from 128
  on (which of them are whitespace or word characters, which of them match an ASCII
  letter under \<open>re.IGNORECASE\<close>, what \<open>str.lower\<close> returns) is the Unicode database
  of the interpreter; it is a parameter \<open>U\<close> of the model, and every theorem holds for
  every value of it.
\<close>

type_synonym uchar = int
type_synonym pystr = "uchar list"

definition ustr :: "string \<Rightarrow> pystr" where
  "ustr s = map of_char s"

record unicode =
  u_space :: "uchar \<Rightarrow> bool"
  u_word :: "uchar \<Rightarrow> bool"
  u_fold :: "uchar \<Rightarrow> uchar \<Rightarrow> bool"
  u_lower :: "pystr \<Rightarrow> pystr"

definition ascii_only :: unicode where
  "ascii_only = \<lparr>u_space = (\<lambda>c. False), u_word = (\<lambda>c. False),
     u_fold = (\<lambda>l c. False), u_lower = (\<lambda>s. s)\<rparr>"

definition is_upper :: "uchar \<Rightarrow> bool" where
  "is_upper c = (65 \<le> c \<and> c \<le> 90)"

definition is_lower :: "uchar \<Rightarrow> bool" where
  "is_lower c = (97 \<le> c \<and> c \<le> 122)"

definition is_digit :: "uchar \<Rightarrow> bool" where
  "is_digit c = (48 \<le> c \<and> c \<le> 57)"

definition ascii_lower :: "uchar \<Rightarrow> uchar" where
  "ascii_lower c = (if is_upper c then c + 32 else c)"

definition is_space :: "unicode \<Rightarrow> uchar \<Rightarrow> bool" where
  "is_space U c =
     (if c < 128 then c = 32 \<or> (9 \<le> c \<and> c \<le> 13) \<or> (28 \<le> c \<and> c \<le> 31)
      else u_space U c)"

definition is_word :: "unicode \<Rightarrow> uchar \<Rightarrow> bool" where
  "is_word U c =
     (if c < 128 then is_upper c \<or> is_lower c \<or> is_digit c \<or> c = 95
      else u_word U c)"

text \<open>\<open>text.lower()\<close>\<close>

definition lower :: "unicode \<Rightarrow> pystr \<Rightarrow> pystr" where
  "lower U s = (if list_all (\<lambda>c. c < 128) s then map ascii_lower s else u_lower U s)"

text \<open>\<open>text.strip()\<close>\<close>

definition strip :: "unicode \<Rightarrow> pystr \<Rightarrow> pystr" where
  "strip U s = rev (dropWhile (is_space U) (rev (dropWhile (is_space U) s)))"

text \<open>\<open>text[a:b]\<close> for \<open>0 \<le> a\<close>, \<open>0 \<le> b\<close>\<close>

definition slice :: "pystr \<Rightarrow> nat \<Rightarrow> nat \<Rightarrow> pystr" where
  "slice s a b = take (b - a) (drop a s)"

text \<open>\<open>sep.join(parts)\<close>\<close>

fun join :: "pystr \<Rightarrow> pystr list \<Rightarrow> pystr" where
  "join sep [] = []"
| "join sep [x] = x"
| "join sep (x # y # ys) = x @ sep @ join sep (y # ys)"

section \<open>Regular expressions of the \<open>re\<close> module\<close>

text \<open>
  The patterns of \<open>translator.py\<close> use literals, \<open>.\<close>, \<open>\s\<close>, \<open>\w\<close>, character
  classes, sequence, alternation, \<open>?\<close>, repetition of a single-character atom
  (\<open>*\<close>, \<open>+\<close>, \<open>{3,}\<close>, and the lazy \<open>*?\<close>), the anchors \<open>^\<close>, \<open>$\<close>, \<open>\Z\<close>, \<open>\b\<close>,
  a positive lookahead and at most one capturing group. \<open>Rep a n g\<close> is at least \<open>n\<close>
  repetitions of the atom \<open>a\<close>, greedy when \<open>g\<close> holds and lazy otherwise.
\<close>

datatype citem = CChar uchar | CRange uchar uchar

datatype atom = Lit uchar | Dot | Space | Word | OneOf "citem list" | NoneOf "citem list"

datatype regex =
    Eps
  | Atom atom
  | Seq regex regex
  | Alt regex regex
  | Rep atom nat bool
  | Bol
  | Eol
  | EndZ
  | WordB
  | Look regex
  | Grp regex

record flags =
  ignorecase :: bool
  multiline :: bool
  dotall :: bool

definition no_flags :: flags where
  "no_flags = \<lparr>ignorecase = False, multiline = False, dotall = False\<rparr>"

text \<open>
  Under \<open>re.IGNORECASE\<close> an ASCII letter of the pattern matches both of its ASCII cases
  and the non-ASCII code points that the Unicode database folds to it; any other
  character of the pattern matches itself only. The one range of the source, \<open>[0-9_]\<close>,
  is compiled without flags.
\<close>

definition lit_ok :: "unicode \<Rightarrow> flags \<Rightarrow> uchar \<Rightarrow> uchar \<Rightarrow> bool" where
  "lit_ok U f l c =
     (if ignorecase f \<and> (is_upper l \<or> is_lower l)
      then (if c < 128 then ascii_lower c = ascii_lower l else u_fold U l c)
      else c = l)"

fun citem_ok :: "unicode \<Rightarrow> flags \<Rightarrow> citem \<Rightarrow> uchar \<Rightarrow> bool" where
  "citem_ok U f (CChar l) c = lit_ok U f l c"
| "citem_ok U f (CRange lo hi) c = (lo \<le> c \<and> c \<le> hi)"

fun atom_ok :: "unicode \<Rightarrow> flags \<Rightarrow> atom \<Rightarrow> uchar \<Rightarrow> bool" where
  "atom_ok U f (Lit l) c = lit_ok U f l c"
| "atom_ok U f Dot c = (if dotall f then True else c \<noteq> 10)"
| "atom_ok U f Space c = is_space U c"
| "atom_ok U f Word c = is_word U c"
| "atom_ok U f (OneOf cs) c = list_ex (\<lambda>i. citem_ok U f i c) cs"
| "atom_ok U f (NoneOf cs) c = (\<not> list_ex (\<lambda>i. citem_ok U f i c) cs)"

text \<open>
  A position of the matcher in the subject string: the index, the character before it
  (\<open>None\<close> at the start), the text from it on, and the span of group 1 when the group
  has taken part in the match.
\<close>

datatype mstate =
  MState (pos: nat) (prev: "uchar option") (rest: pystr) (grp: "(nat \<times> nat) option")

definition start_state :: "pystr \<Rightarrow> mstate" where
  "start_state s = MState 0 None s None"

fun ungroup :: "mstate \<Rightarrow> mstate" where
  "ungroup (MState p pv cs g) = MState p pv cs None"

fun set_group :: "nat \<Rightarrow> mstate \<Rightarrow> mstate" where
  "set_group a (MState p pv cs g) = MState p pv cs (Some (a, p))"

fun word_opt :: "unicode \<Rightarrow> uchar option \<Rightarrow> bool" where
  "word_opt U None = False"
| "word_opt U (Some c) = is_word U c"

fun next_char :: "pystr \<Rightarrow> uchar option" where
  "next_char [] = None"
| "next_char (c # cs) = Some c"

text \<open>
  The positions after 0, 1, 2, ... characters that the atom accepts, as far as it
  accepts them.
\<close>

fun rep_states ::
  "unicode \<Rightarrow> flags \<Rightarrow> atom \<Rightarrow> nat \<Rightarrow> uchar option \<Rightarrow> pystr \<Rightarrow> (nat \<times> nat) option \<Rightarrow> mstate list"
where
  "rep_states U f a p pv [] g = [MState p pv [] g]"
| "rep_states U f a p pv (c # cs) g =
     MState p pv (c # cs) g #
     (if atom_ok U f a c then rep_states U f a (Suc p) (Some c) cs g else [])"

text \<open>
  \<open>rx_m U f r st\<close> lists the positions at which a match of \<open>r\<close> that starts at \<open>st\<close>
  can end, in the order in which the backtracking matcher of \<open>re\<close> tries them: the
  left alternative before the right one, more repetitions before fewer for a greedy
  repetition and fewer before more for a lazy one. The match that \<open>re\<close> reports is the
  first of the list; the pattern does not match at \<open>st\<close> when the list is empty.
\<close>

fun rx_m :: "unicode \<Rightarrow> flags \<Rightarrow> regex \<Rightarrow> mstate \<Rightarrow> mstate list" where
  "rx_m U f Eps st = [st]"
| "rx_m U f (Atom a) (MState p pv [] g) = []"
| "rx_m U f (Atom a) (MState p pv (c # cs) g) =
     (if atom_ok U f a c then [MState (Suc p) (Some c) cs g] else [])"
| "rx_m U f (Seq r1 r2) st = concat (map (rx_m U f r2) (rx_m U f r1 st))"
| "rx_m U f (Alt r1 r2) st = rx_m U f r1 st @ rx_m U f r2 st"
| "rx_m U f (Rep a n greedy) (MState p pv cs g) =
     (if greedy then rev (drop n (rep_states U f a p pv cs g))
      else drop n (rep_states U f a p pv cs g))"
| "rx_m U f Bol (MState p pv cs g) =
     (if pv = None \<or> (multiline f \<and> pv = Some 10) then [MState p pv cs g] else [])"
| "rx_m U f Eol (MState p pv [] g) = [MState p pv [] g]"
| "rx_m U f Eol (MState p pv (c # cs) g) =
     (if c = 10 \<and> (multiline f \<or> cs = []) then [MState p pv (c # cs) g] else [])"
| "rx_m U f EndZ (MState p pv cs g) = (if cs = [] then [MState p pv cs g] else [])"
| "rx_m U f WordB (MState p pv cs g) =
     (if word_opt U pv = word_opt U (next_char cs) then [] else [MState p pv cs g])"
| "rx_m U f (Look r) st = (if rx_m U f r st = [] then [] else [st])"
| "rx_m U f (Grp r) st = map (set_group (pos st)) (rx_m U f r st)"

text \<open>Pattern syntax: a literal string, \<open>r?\<close>, and n-ary sequence and alternation.\<close>

definition lit :: "pystr \<Rightarrow> regex" where
  "lit s = foldr (\<lambda>c r. Seq (Atom (Lit c)) r) s Eps"

definition opt :: "regex \<Rightarrow> regex" where
  "opt r = Alt r Eps"

definition seqs :: "regex list \<Rightarrow> regex" where
  "seqs rs = foldr Seq rs Eps"

fun alts :: "regex list \<Rightarrow> regex" where
  "alts [] = Eps"
| "alts [r] = r"
| "alts (r # rs) = Alt r (alts rs)"

subsection \<open>A match ends in the text it started in\<close>

lemma rep_states_rest:
  "m \<in> set (rep_states U f a p pv cs g) \<Longrightarrow>
   p \<le> pos m \<and> pos m + length (rest m) = p + length cs \<and> rest m = drop (pos m - p) cs"
proof (induction cs arbitrary: p pv)
  case Nil
  then show ?case
    by simp
next
  case (Cons c cs)
  show ?case
  proof (cases "m = MState p pv (c # cs) g")
    case True
    then show ?thesis
      by simp
  next
    case False
    with Cons.prems have m: "m \<in> set (rep_states U f a (Suc p) (Some c) cs g)"
      by (auto split: if_splits)
    from Cons.IH[OF m] have le: "Suc p \<le> pos m"
      and len: "pos m + length (rest m) = Suc p + length cs"
      and r: "rest m = drop (pos m - Suc p) cs"
      by simp_all
    from le have "pos m - p = Suc (pos m - Suc p)"
      by arith
    with le len r show ?thesis
      by simp
  qed
qed

lemma rx_m_rest:
  "m \<in> set (rx_m U f r st) \<Longrightarrow>
   pos st \<le> pos m \<and>
   pos m + length (rest m) = pos st + length (rest st) \<and>
   rest m = drop (pos m - pos st) (rest st)"
proof (induction r arbitrary: st m)
  case (Atom a)
  then show ?case
    by (cases st; cases "rest st") (auto split: if_splits)
next
  case (Seq r1 r2)
  from Seq.prems obtain m1 where m1: "m1 \<in> set (rx_m U f r1 st)" and m: "m \<in> set (rx_m U f r2 m1)"
    by auto
  from Seq.IH(1)[OF m1] Seq.IH(2)[OF m] show ?case
    by (auto simp: add.commute)
next
  case (Rep a n g)
  from Rep.prems have "m \<in> set (rep_states U f a (pos st) (prev st) (rest st) (grp st))"
    by (cases st) (auto split: if_splits dest: in_set_dropD)
  then show ?case
    by (rule rep_states_rest)
next
  case Bol
  then show ?case
    by (cases st) (auto split: if_splits)
next
  case Eol
  then show ?case
    by (cases st; cases "rest st") (auto split: if_splits)
next
  case EndZ
  then show ?case
    by (cases st) (auto split: if_splits)
next
  case WordB
  then show ?case
    by (cases st) (auto split: if_splits)
next
  case (Look r)
  then show ?case
    by (auto split: if_splits)
next
  case (Grp r)
  from Grp.prems obtain m' where m': "m' \<in> set (rx_m U f r st)"
    and m: "m = set_group (pos st) m'"
    by auto
  from Grp.IH[OF m'] m show ?case
    by (cases m') simp
qed auto

lemma rx_m_shorter:
  assumes "rx_m U f r st = m # ms" and "pos m \<noteq> pos st"
  shows "length (rest m) < length (rest st)"
proof -
  have "m \<in> set (rx_m U f r st)"
    using assms(1) by simp
  from rx_m_rest[OF this] assms(2) show ?thesis
    by arith
qed

subsection \<open>\<open>re.search\<close>, \<open>re.finditer\<close>, \<open>re.sub\<close>, \<open>re.findall\<close>, \<open>re.split\<close>\<close>

text \<open>
  A scan tries the pattern at the current position; on a match it goes on from the end
  of the match, otherwise from the next character. After an empty match it moves on by
  one character (none of the patterns of the source can match the empty string).
\<close>

datatype rmatch = RMatch (m_start: nat) (m_end: nat) (m_group: "(nat \<times> nat) option")

fun advance :: "mstate \<Rightarrow> mstate" where
  "advance (MState p pv [] g) = MState p pv [] g"
| "advance (MState p pv (c # cs) g) = MState (Suc p) (Some c) cs g"

function rx_iter :: "unicode \<Rightarrow> flags \<Rightarrow> regex \<Rightarrow> mstate \<Rightarrow> rmatch list" where
  "rx_iter U f r st =
     (case rx_m U f r (ungroup st) of
        [] \<Rightarrow> (if rest st = [] then [] else rx_iter U f r (advance st))
      | m # ms \<Rightarrow>
          RMatch (pos st) (pos m) (grp m) #
          (if pos m = pos st
           then (if rest st = [] then [] else rx_iter U f r (advance st))
           else rx_iter U f r m))"
  by pat_completeness auto
termination
proof (relation "measure (\<lambda>(U, f, r, st). length (rest st))")
  show "wf (measure (\<lambda>(U, f, r, st). length (rest st)))"
    by simp
next
  fix U :: unicode and f :: flags and r :: regex and st :: mstate
  assume "rest st \<noteq> []"
  then show "((U, f, r, advance st), (U, f, r, st)) \<in> measure (\<lambda>(U, f, r, st). length (rest st))"
    by (cases st; cases "rest st") auto
next
  fix U :: unicode and f :: flags and r :: regex and st :: mstate
  assume "rest st \<noteq> []"
  then show "((U, f, r, advance st), (U, f, r, st)) \<in> measure (\<lambda>(U, f, r, st). length (rest st))"
    by (cases st; cases "rest st") auto
next
  fix U :: unicode and f :: flags and r :: regex and st m :: mstate and ms
  assume "rx_m U f r (ungroup st) = m # ms" and "pos m \<noteq> pos st"
  then have "length (rest m) < length (rest (ungroup st))"
    by (intro rx_m_shorter) (cases st, auto)+
  then show "((U, f, r, m), (U, f, r, st)) \<in> measure (\<lambda>(U, f, r, st). length (rest st))"
    by (cases st) simp
qed

function rx_sub :: "unicode \<Rightarrow> flags \<Rightarrow> regex \<Rightarrow> pystr \<Rightarrow> mstate \<Rightarrow> pystr" where
  "rx_sub U f r repl st =
     (case rx_m U f r (ungroup st) of
        [] \<Rightarrow> (case rest st of [] \<Rightarrow> [] | c # cs \<Rightarrow> c # rx_sub U f r repl (advance st))
      | m # ms \<Rightarrow>
          repl @
          (if pos m = pos st
           then (case rest st of [] \<Rightarrow> [] | c # cs \<Rightarrow> c # rx_sub U f r repl (advance st))
           else rx_sub U f r repl m))"
  by pat_completeness auto
termination
proof (relation "measure (\<lambda>(U, f, r, repl, st). length (rest st))")
  show "wf (measure (\<lambda>(U, f, r, repl, st). length (rest st)))"
    by simp
next
  fix U :: unicode and f :: flags and r :: regex and repl :: pystr and st :: mstate and c cs
  assume "rest st = c # cs"
  then show "((U, f, r, repl, advance st), (U, f, r, repl, st))
      \<in> measure (\<lambda>(U, f, r, repl, st). length (rest st))"
    by (cases st) auto
next
  fix U :: unicode and f :: flags and r :: regex and repl :: pystr and st :: mstate and c cs
  assume "rest st = c # cs"
  then show "((U, f, r, repl, advance st), (U, f, r, repl, st))
      \<in> measure (\<lambda>(U, f, r, repl, st). length (rest st))"
    by (cases st) auto
next
  fix U :: unicode and f :: flags and r :: regex and repl :: pystr and st m :: mstate and ms
  assume "rx_m U f r (ungroup st) = m # ms" and "pos m \<noteq> pos st"
  then have "length (rest m) < length (rest (ungroup st))"
    by (intro rx_m_shorter) (cases st, auto)+
  then show "((U, f, r, repl, m), (U, f, r, repl, st))
      \<in> measure (\<lambda>(U, f, r, repl, st). length (rest st))"
    by (cases st) simp
qed

declare rx_iter.simps [simp del] rx_sub.simps [simp del]

text \<open>\<open>re.sub(pattern, repl, text, flags)\<close> for a replacement without backslashes\<close>

definition re_sub :: "unicode \<Rightarrow> flags \<Rightarrow> regex \<Rightarrow> pystr \<Rightarrow> pystr \<Rightarrow> pystr" where
  "re_sub U f r repl text = rx_sub U f r repl (start_state text)"

text \<open>\<open>list(re.finditer(pattern, text))\<close>\<close>

definition re_finditer :: "unicode \<Rightarrow> flags \<Rightarrow> regex \<Rightarrow> pystr \<Rightarrow> rmatch list" where
  "re_finditer U f r text = rx_iter U f r (start_state text)"

text \<open>\<open>bool(re.search(pattern, text))\<close>\<close>

definition re_search_bool :: "unicode \<Rightarrow> flags \<Rightarrow> regex \<Rightarrow> pystr \<Rightarrow> bool" where
  "re_search_bool U f r text = (re_finditer U f r text \<noteq> [])"

text \<open>
  \<open>match.group(1)\<close>: the text of group 1, or \<open>None\<close> when the group took no part in
  the match.
\<close>

definition group1 :: "pystr \<Rightarrow> rmatch \<Rightarrow> pystr option" where
  "group1 text m = (case m_group m of None \<Rightarrow> None | Some (a, b) \<Rightarrow> Some (slice text a b))"

text \<open>
  \<open>re.findall\<close> for a pattern with one group: the text of the group of every match,
  the empty string where the group took no part.
\<close>

definition re_findall :: "unicode \<Rightarrow> flags \<Rightarrow> regex \<Rightarrow> pystr \<Rightarrow> pystr list" where
  "re_findall U f r text =
     map (\<lambda>m. case group1 text m of None \<Rightarrow> [] | Some g \<Rightarrow> g) (re_finditer U f r text)"

text \<open>\<open>re.split\<close> for a pattern without groups: the pieces between the matches\<close>

fun split_at :: "pystr \<Rightarrow> nat \<Rightarrow> rmatch list \<Rightarrow> pystr list" where
  "split_at text cur [] = [slice text cur (length text)]"
| "split_at text cur (m # ms) = slice text cur (m_start m) # split_at text (m_end m) ms"

definition re_split :: "unicode \<Rightarrow> flags \<Rightarrow> regex \<Rightarrow> pystr \<Rightarrow> pystr list" where
  "re_split U f r text = split_at text 0 (re_finditer U f r text)"

section \<open>The translator\<close>

text \<open>
  \<open>group(1).strip()\<close> raises \<open>AttributeError\<close> when group 1 is \<open>None\<close>; it is the
  one place of the pipeline where a call can fail on a string input, and the one
  error of the model.
\<close>

datatype error = AttributeError

definition chr :: "char \<Rightarrow> uchar" where
  "chr c = of_char c"

definition nl :: uchar where
  "nl = 10"

definition bullet :: uchar where
  "bullet = 8226"

subsection \<open>Dictionaries\<close>

text \<open>
  A \<open>dict\<close> is the list of its items in iteration order. Storing under a key that is
  present replaces the value and keeps the place of the key, which is what a dict
  literal or a dict comprehension with a repeated key does.
\<close>

type_synonym ('k, 'v) dict = "('k \<times> 'v) list"

fun dict_set :: "('k, 'v) dict \<Rightarrow> 'k \<Rightarrow> 'v \<Rightarrow> ('k, 'v) dict" where
  "dict_set [] k v = [(k, v)]"
| "dict_set ((k', v') # d) k v =
     (if k' = k then (k', v) # d else (k', v') # dict_set d k v)"

definition dict_of :: "('k \<times> 'v) list \<Rightarrow> ('k, 'v) dict" where
  "dict_of items = foldl (\<lambda>d (k, v). dict_set d k v) [] items"

subsection \<open>\<open>__init__\<close>\<close>

text \<open>
  \<open>self.table\<close> is read from \<open>translation_table.json\<close>, which is not part of the
  sources: it is the parameter \<open>tbl\<close>, a dict from strings to strings.
\<close>

definition reverse_table :: "(pystr, pystr) dict \<Rightarrow> (pystr, pystr) dict" where
  "reverse_table tbl = dict_of (map (\<lambda>(k, v). (v, k)) tbl)"

definition extended_reverse :: "(pystr, pystr) dict" where
  "extended_reverse = dict_of
     [(ustr ''0'', ustr ''o''), (ustr ''O'', ustr ''o''),
      (ustr ''1'', ustr ''i''), (ustr ''I'', ustr ''i''),
      (ustr ''3'', ustr ''e''), (ustr ''E'', ustr ''e''),
      (ustr ''4'', ustr ''a''), (ustr ''A'', ustr ''a''),
      (ustr ''7'', ustr ''t''), (ustr ''T'', ustr ''t''),
      (ustr ''_'', ustr '' ''),
      (ustr ''5'', ustr ''s''), (ustr ''S'', ustr ''s''),
      (ustr ''6'', ustr ''g''), (ustr ''G'', ustr ''g''),
      (ustr ''8'', ustr ''b''), (ustr ''B'', ustr ''b''),
      (ustr ''9'', ustr ''g''), (ustr ''G'', ustr ''g''),
      (ustr ''2'', ustr ''z''), (ustr ''Z'', ustr ''z'')]"

definition character_names :: "pystr list" where
  "character_names =
     [ustr ''HOUSE'', ustr ''FOREMAN'', ustr ''CAMERON'', ustr ''WILSON'',
      ustr ''CHASE'', ustr ''CUDDY'', ustr ''THIRTEEN'', ustr ''TAUB'']"

subsection \<open>\<open>to_leetspeak\<close>\<close>

definition to_leetspeak :: "unicode \<Rightarrow> (pystr, pystr) dict \<Rightarrow> pystr \<Rightarrow> pystr" where
  "to_leetspeak U tbl text =
     concat (map (\<lambda>char. case map_of tbl [char] of Some v \<Rightarrow> v | None \<Rightarrow> [char])
       (lower U text))"

subsection \<open>\<open>from_leetspeak\<close>\<close>

text \<open>
  \<open>s.replace(old, new)\<close>: the occurrences of \<open>old\<close> from left to right, without
  overlap; for the empty \<open>old\<close>, \<open>new\<close> before every character and at the end.
\<close>

function replace_scan :: "pystr \<Rightarrow> pystr \<Rightarrow> pystr \<Rightarrow> pystr" where
  "replace_scan old new s =
     (if old \<noteq> [] \<and> take (length old) s = old
      then new @ replace_scan old new (drop (length old) s)
      else (case s of [] \<Rightarrow> [] | c # cs \<Rightarrow> c # replace_scan old new cs))"
  by pat_completeness auto
termination
proof (relation "measure (\<lambda>(old, new, s). length s)")
  fix old new s :: pystr
  assume "old \<noteq> [] \<and> take (length old) s = old"
  then have "old \<noteq> []" and "take (length old) s = old"
    by simp_all
  then have "s \<noteq> []"
    by auto
  with \<open>old \<noteq> []\<close>
  show "((old, new, drop (length old) s), (old, new, s)) \<in> measure (\<lambda>(old, new, s). length s)"
    by simp
qed auto

declare replace_scan.simps [simp del]

definition replace :: "pystr \<Rightarrow> pystr \<Rightarrow> pystr \<Rightarrow> pystr" where
  "replace old new s =
     (if old = [] then new @ concat (map (\<lambda>c. c # new) s) else replace_scan old new s)"

definition numeric_fixes :: "(pystr, pystr) dict" where
  "numeric_fixes = dict_of
     [(ustr ''io'', ustr ''10''), (ustr ''ii'', ustr ''11''), (ustr ''iz'', ustr ''12''),
      (ustr ''ie'', ustr ''13''), (ustr ''ia'', ustr ''14''),
      (ustr ''is'', ustr ''15''), (ustr ''ig'', ustr ''16''), (ustr ''it'', ustr ''17''),
      (ustr ''ib'', ustr ''18''), (ustr ''ig'', ustr ''19''),
      (ustr ''zo'', ustr ''20''), (ustr ''zi'', ustr ''21''), (ustr ''zz'', ustr ''22''),
      (ustr ''ze'', ustr ''23''), (ustr ''za'', ustr ''24''),
      (ustr ''zs'', ustr ''25''), (ustr ''zg'', ustr ''26''), (ustr ''zt'', ustr ''27''),
      (ustr ''zb'', ustr ''28''), (ustr ''zg'', ustr ''29''),
      (ustr ''eo'', ustr ''30''), (ustr ''ei'', ustr ''31''),
      (ustr ''ao'', ustr ''40''), (ustr ''sooo'', ustr ''5000''),
      (ustr ''iooo'', ustr ''1000'')]"

text \<open>
  \<open>r'\b' + re.escape(leet) + r'\b'\<close>; the keys of \<open>numeric_fixes\<close> are letters, which
  \<open>re.escape\<close> leaves as they are.
\<close>

definition word_pat :: "pystr \<Rightarrow> regex" where
  "word_pat leet = seqs [WordB, lit leet, WordB]"

definition primary_pass :: "(pystr, pystr) dict \<Rightarrow> pystr \<Rightarrow> pystr" where
  "primary_pass tbl result =
     foldl (\<lambda>result (leet, normal). replace leet normal result) result (reverse_table tbl)"

definition extended_pass :: "pystr \<Rightarrow> pystr" where
  "extended_pass result =
     foldl (\<lambda>result (leet, normal). replace leet normal result) result extended_reverse"

definition numeric_pass :: "unicode \<Rightarrow> pystr \<Rightarrow> pystr" where
  "numeric_pass U result =
     foldl (\<lambda>result (leet, normal). re_sub U no_flags (word_pat leet) normal result)
       result numeric_fixes"

definition from_leetspeak :: "unicode \<Rightarrow> (pystr, pystr) dict \<Rightarrow> pystr \<Rightarrow> pystr" where
  "from_leetspeak U tbl leetspeak =
     (if leetspeak = [] then []
      else numeric_pass U (extended_pass (primary_pass tbl leetspeak)))"

subsection \<open>\<open>contains_leetspeak\<close>\<close>

text \<open>\<open>[0-9_]\<close>\<close>

definition leet_indicator :: regex where
  "leet_indicator = Atom (OneOf [CRange (chr CHR ''0'') (chr CHR ''9''), CChar (chr CHR ''_'')])"

definition contains_leetspeak :: "unicode \<Rightarrow> pystr \<Rightarrow> bool" where
  "contains_leetspeak U text = re_search_bool U no_flags leet_indicator text"

subsection \<open>The patterns of the extractor\<close>

definition fl_dotall_multiline_ignorecase :: flags where
  "fl_dotall_multiline_ignorecase = \<lparr>ignorecase = True, multiline = True, dotall = True\<rparr>"

definition fl_dotall_multiline :: flags where
  "fl_dotall_multiline = \<lparr>ignorecase = False, multiline = True, dotall = True\<rparr>"

definition fl_dotall :: flags where
  "fl_dotall = \<lparr>ignorecase = False, multiline = False, dotall = True\<rparr>"

definition fl_ignorecase :: flags where
  "fl_ignorecase = \<lparr>ignorecase = True, multiline = False, dotall = False\<rparr>"

definition fl_multiline_ignorecase :: flags where
  "fl_multiline_ignorecase = \<lparr>ignorecase = True, multiline = True, dotall = False\<rparr>"

text \<open>\<open>\s*\<close>, \<open>(?:^|\n)\<close>, \<open>[\<bullet>*-]\<close> and the lazy group \<open>(.*?)\<close>\<close>

definition spaces :: regex where
  "spaces = Rep Space 0 True"

definition line_start :: regex where
  "line_start = Alt Bol (Atom (Lit nl))"

definition bullet_class :: atom where
  "bullet_class = OneOf [CChar bullet, CChar (chr CHR ''*''), CChar (chr CHR ''-'')]"

definition lazy_group :: regex where
  "lazy_group = Grp (Rep Dot 0 False)"

text \<open>\<^verbatim>\<open>```(?:markdown)?|```\<close>\<close>

definition fence_re :: regex where
  "fence_re = Alt (Seq (lit (ustr ''```'')) (opt (lit (ustr ''markdown'')))) (lit (ustr ''```''))"

text \<open>
  \<^verbatim>\<open>(?:^|\n)\s*(?:HOUSE|HoUse)(?:\s*:|\.)?(?:\s*\([^)]*\))?\s*(.*?)\<close>
  \<^verbatim>\<open>(?=(?:^|\n)\s*(?:FOREMAN|CAMERON|WILSON|CHASE|CUDDY|$))\<close>
\<close>

definition house_pattern :: regex where
  "house_pattern = seqs
     [line_start, spaces,
      alts [lit (ustr ''HOUSE''), lit (ustr ''HoUse'')],
      opt (Alt (Seq spaces (Atom (Lit (chr CHR '':'')))) (Atom (Lit (chr CHR ''.'')))),
      opt (seqs [spaces, Atom (Lit (chr CHR ''('')),
                 Rep (NoneOf [CChar (chr CHR '')'')]) 0 True, Atom (Lit (chr CHR '')''))]),
      spaces,
      lazy_group,
      Look (seqs [line_start, spaces,
                  alts [lit (ustr ''FOREMAN''), lit (ustr ''CAMERON''), lit (ustr ''WILSON''),
                        lit (ustr ''CHASE''), lit (ustr ''CUDDY''), Eol]])]"

text \<open>\<^verbatim>\<open>(?:^|\n)\s*[\<bullet>*-]\s*(.*?)(?=(?:^|\n)\s*[\<bullet>*-]|\Z)\<close>\<close>

definition bullet_pattern :: regex where
  "bullet_pattern = seqs
     [line_start, spaces, Atom bullet_class, spaces, lazy_group,
      Look (Alt (seqs [line_start, spaces, Atom bullet_class]) EndZ)]"

text \<open>\<^verbatim>\<open>(?:^|\n)\s*[\<bullet>*-]\s+\<close>\<close>

definition marker_re :: regex where
  "marker_re = seqs [line_start, spaces, Atom bullet_class, Rep Space 1 True]"

text \<open>\<^verbatim>\<open>```(?:\w+)?\n?(.*?)```\<close>\<close>

definition code_block_re :: regex where
  "code_block_re = seqs
     [lit (ustr ''```''), opt (Rep Word 1 True), opt (Atom (Lit nl)), lazy_group,
      lit (ustr ''```'')]"

text \<open>\<^verbatim>\<open>\n\s*\n\<close>\<close>

definition paragraph_re :: regex where
  "paragraph_re = seqs [Atom (Lit nl), spaces, Atom (Lit nl)]"

subsection \<open>\<open>_extract_full_bullet_content\<close>\<close>

text \<open>
  The loop over \<open>enumerate(bullet_markers)\<close>: the body of a bullet runs from the end of
  its marker to the start of the next marker, or to the end of the text for the last.
\<close>

fun bullet_points :: "unicode \<Rightarrow> pystr \<Rightarrow> rmatch list \<Rightarrow> pystr list" where
  "bullet_points U text [] = []"
| "bullet_points U text [marker] =
     (let content = strip U (slice text (m_end marker) (length text))
      in if content \<noteq> [] then [content] else [])"
| "bullet_points U text (marker # next # markers) =
     (let content = strip U (slice text (m_end marker) (m_start next))
      in (if content \<noteq> [] then [content] else []) @ bullet_points U text (next # markers))"

definition extract_full_bullet_content :: "unicode \<Rightarrow> pystr \<Rightarrow> pystr option" where
  "extract_full_bullet_content U text =
     (let bullet_markers = re_finditer U no_flags marker_re text
      in if bullet_markers = [] then None
         else (let points = bullet_points U text bullet_markers
               in if points \<noteq> [] then Some (join [nl, nl] points) else None))"

subsection \<open>\<open>extract_leetspeak\<close>\<close>

text \<open>
  The loop over the matches of \<open>house_pattern\<close>; \<open>match.group(1).strip()\<close> fails when
  group 1 is \<open>None\<close>.
\<close>

fun house_loop :: "unicode \<Rightarrow> pystr \<Rightarrow> rmatch list \<Rightarrow> error + pystr list" where
  "house_loop U response [] = Inr []"
| "house_loop U response (m # ms) =
     (case group1 response m of
        None \<Rightarrow> Inl AttributeError
      | Some g \<Rightarrow>
          (let dialogue = strip U g
           in case house_loop U response ms of
                Inl e \<Rightarrow> Inl e
              | Inr house_dialogue \<Rightarrow>
                  Inr (if dialogue \<noteq> [] \<and> contains_leetspeak U dialogue
                       then dialogue # house_dialogue else house_dialogue)))"

text \<open>
  Strategy 1, once House's dialogue is not empty. \<open>if full_content:\<close> holds for a
  string that is not empty, and not for \<open>None\<close>.
\<close>

definition strategy1 :: "unicode \<Rightarrow> pystr list \<Rightarrow> pystr" where
  "strategy1 U house_dialogue =
     (let combined_dialogue = join [nl] house_dialogue;
          bullet_matches = re_findall U fl_dotall_multiline bullet_pattern combined_dialogue
      in if bullet_matches \<noteq> []
         then (case extract_full_bullet_content U combined_dialogue of
                 None \<Rightarrow> combined_dialogue
               | Some full_content \<Rightarrow>
                   if full_content \<noteq> [] then full_content else combined_dialogue)
         else combined_dialogue)"

text \<open>Strategy 2: the bullet points of the whole response, \<open>None\<close> when it does not apply\<close>

definition strategy2 :: "unicode \<Rightarrow> pystr \<Rightarrow> pystr option" where
  "strategy2 U response =
     (if bullet \<in> set response \<or> chr CHR ''*'' \<in> set response \<or> chr CHR ''-'' \<in> set response
      then (case extract_full_bullet_content U response of
              None \<Rightarrow> None
            | Some full_content \<Rightarrow> if full_content \<noteq> [] then Some full_content else None)
      else None)"

text \<open>Strategy 3: the code blocks with leetspeak\<close>

definition strategy3 :: "unicode \<Rightarrow> pystr \<Rightarrow> pystr option" where
  "strategy3 U response =
     (let code_blocks = re_findall U fl_dotall code_block_re response
      in if code_blocks \<noteq> []
         then (let code_content = filter (contains_leetspeak U) code_blocks
               in if code_content \<noteq> [] then Some (join [nl, nl] code_content) else None)
         else None)"

text \<open>Strategy 4: the paragraphs with leetspeak\<close>

definition strategy4 :: "unicode \<Rightarrow> pystr \<Rightarrow> pystr option" where
  "strategy4 U response =
     (let paragraphs = re_split U no_flags paragraph_re response;
          leet_paragraphs = filter (contains_leetspeak U) paragraphs
      in if leet_paragraphs \<noteq> [] then Some (join [nl, nl] leet_paragraphs) else None)"

definition extract_leetspeak :: "unicode \<Rightarrow> pystr \<Rightarrow> error + pystr" where
  "extract_leetspeak U response0 =
     (if response0 = [] \<or> length (strip U response0) = 0 then Inr []
      else (let response = re_sub U no_flags fence_re [] response0
            in case house_loop U response
                      (re_finditer U fl_dotall_multiline_ignorecase house_pattern response) of
                 Inl e \<Rightarrow> Inl e
               | Inr house_dialogue \<Rightarrow>
                   if house_dialogue \<noteq> [] then Inr (strategy1 U house_dialogue)
                   else (case strategy2 U response of
                           Some full_content \<Rightarrow> Inr full_content
                         | None \<Rightarrow>
                             (case strategy3 U response of
                                Some code \<Rightarrow> Inr code
                              | None \<Rightarrow>
                                  (case strategy4 U response of
                                     Some paras \<Rightarrow> Inr paras
                                   | None \<Rightarrow> Inr response)))))"

subsection \<open>\<open>normalize_character_names\<close> and \<open>clean_stage_directions\<close>\<close>

definition ascii_upper :: "uchar \<Rightarrow> uchar" where
  "ascii_upper c = (if is_lower c then c - 32 else c)"

text \<open>
  \<^verbatim>\<open>r'\b' + ''.join(f'[{c.lower()}{c.upper()}]' for c in name) + r'\b'\<close>, for a name
  of ASCII letters
\<close>

definition name_pat :: "pystr \<Rightarrow> regex" where
  "name_pat name = seqs
     [WordB,
      seqs (map (\<lambda>c. Atom (OneOf [CChar (ascii_lower c), CChar (ascii_upper c)])) name),
      WordB]"

definition normalize_character_names :: "unicode \<Rightarrow> pystr \<Rightarrow> pystr" where
  "normalize_character_names U text =
     foldl (\<lambda>text name. re_sub U fl_ignorecase (name_pat name) name text) text character_names"

text \<open>\<^verbatim>\<open>\([^)]*\)\<close>, \<^verbatim>\<open>\[[^\]]*\]\<close> and \<^verbatim>\<open>\n{3,}\<close>\<close>

definition parens_re :: regex where
  "parens_re = seqs
     [Atom (Lit (chr CHR ''('')), Rep (NoneOf [CChar (chr CHR '')'')]) 0 True,
      Atom (Lit (chr CHR '')''))]"

definition brackets_re :: regex where
  "brackets_re = seqs
     [Atom (Lit (chr CHR ''['')), Rep (NoneOf [CChar (chr CHR '']'')]) 0 True,
      Atom (Lit (chr CHR '']''))]"

definition newlines_re :: regex where
  "newlines_re = Rep (Lit nl) 3 True"

definition clean_stage_directions :: "unicode \<Rightarrow> pystr \<Rightarrow> pystr" where
  "clean_stage_directions U text0 =
     (let text = re_sub U no_flags parens_re [] text0;
          text = re_sub U no_flags brackets_re [] text;
          text = re_sub U no_flags newlines_re [nl, nl] text
      in text)"

subsection \<open>\<open>process_response\<close>\<close>

text \<open>
  \<^verbatim>\<open>(?:HOUSE|HoUse|H0use)\s*\([^)]*\)\<close>, \<^verbatim>\<open>^(?:HOUSE|HoUse|H0use)\s*(?::)?\s*\<close>
  and \<^verbatim>\<open>\[SCENE (?:START|END)\]\<close>
\<close>

definition house_names :: regex where
  "house_names = alts [lit (ustr ''HOUSE''), lit (ustr ''HoUse''), lit (ustr ''H0use'')]"

definition house_action_re :: regex where
  "house_action_re = seqs [house_names, spaces, parens_re]"

definition house_prefix_re :: regex where
  "house_prefix_re = seqs [Bol, house_names, spaces, opt (Atom (Lit (chr CHR '':''))), spaces]"

definition scene_re :: regex where
  "scene_re = seqs
     [lit (ustr ''[SCENE ''), Alt (lit (ustr ''START'')) (lit (ustr ''END'')),
      Atom (Lit (chr CHR '']''))]"

text \<open>
  The steps of \<open>process_response\<close> before decoding (the removal of House's actions and
  of the \<open>HOUSE:\<close> prefix, and \<open>clean_stage_directions\<close>) and after it (name
  normalisation, the removal of code fences and scene markers, the collapse of
  newlines and the final \<open>strip\<close>).
\<close>

definition pre_decode :: "unicode \<Rightarrow> pystr \<Rightarrow> pystr" where
  "pre_decode U extracted =
     (let cleaned = re_sub U fl_ignorecase house_action_re [] extracted;
          cleaned = re_sub U fl_multiline_ignorecase house_prefix_re [] cleaned
      in clean_stage_directions U cleaned)"

definition post_decode :: "unicode \<Rightarrow> pystr \<Rightarrow> pystr" where
  "post_decode U decoded0 =
     (let decoded = normalize_character_names U decoded0;
          decoded = re_sub U no_flags fence_re [] decoded;
          decoded = re_sub U no_flags scene_re [] decoded;
          decoded = re_sub U no_flags newlines_re [nl, nl] decoded
      in strip U decoded)"

definition process_response :: "unicode \<Rightarrow> (pystr, pystr) dict \<Rightarrow> pystr \<Rightarrow> error + pystr" where
  "process_response U tbl response =
     (case extract_leetspeak U response of
        Inl e \<Rightarrow> Inl e
      | Inr extracted \<Rightarrow>
          Inr (post_decode U (from_leetspeak U tbl (pre_decode U extracted))))"

subsection \<open>An instance of the substitution table\<close>

text \<open>
  Modelled from the spec: \<open>translation_table.json\<close>, the file that holds the
  SubstitutionTable, is not among the sources. The spec describes it as a mapping of
  about five to ten lowercase source characters to leet forms; this instance has the
  substitutions that the comments of \<open>__init__\<close> name (o to 0, i to 1, e to 3, a to 4,
  t to 7, space to underscore). The functions above take the table as a parameter;
  the instance is used for concrete inputs only.
\<close>

definition basic_table :: "(pystr, pystr) dict" where
  "basic_table =
     [(ustr ''a'', ustr ''4''), (ustr ''e'', ustr ''3''), (ustr ''i'', ustr ''1''),
      (ustr ''o'', ustr ''0''), (ustr ''t'', ustr ''7''), (ustr '' '', ustr ''_'')]"

subsection \<open>The scenario of the specification\<close>

text \<open>The raw response of the full-pipeline scenario.\<close>

definition scenario_response :: pystr where
  "scenario_response = ustr ''HOUSE: The answer is 4pple and 0range. [SCENE END]''"

section \<open>Properties\<close>

subsection \<open>Characters and flags\<close>

lemma chr_simps:
  "chr CHR ''0'' = 48" "chr CHR ''9'' = 57" "chr CHR ''_'' = 95" "chr CHR ''*'' = 42"
  "chr CHR ''-'' = 45" "chr CHR '':'' = 58" "chr CHR ''.'' = 46" "chr CHR ''('' = 40"
  "chr CHR '')'' = 41" "chr CHR ''['' = 91" "chr CHR '']'' = 93"
  by (simp_all add: chr_def)

lemma no_flags_simps [simp]:
  "ignorecase no_flags = False" "multiline no_flags = False" "dotall no_flags = False"
  by (simp_all add: no_flags_def)

subsection \<open>\<open>contains_leetspeak\<close>\<close>

lemma rx_iter_atom:
  "rx_iter U f (Atom a) (MState p pv cs g) \<noteq> [] \<longleftrightarrow> list_ex (atom_ok U f a) cs"
proof (induction cs arbitrary: p pv g)
  case Nil
  show ?case
    by (subst rx_iter.simps) simp
next
  case (Cons c cs)
  show ?case
  proof (cases "atom_ok U f a c")
    case True
    then show ?thesis
      by (subst rx_iter.simps) simp
  next
    case False
    then show ?thesis
      using Cons.IH[of "Suc p" "Some c" g]
      by (subst rx_iter.simps) simp
  qed
qed

text \<open>
  C9: for every string \<open>text\<close>, \<open>contains_leetspeak(text)\<close> is true if and only if
  \<open>text\<close> contains at least one ASCII digit (0-9) or an underscore.
\<close>

theorem contains_leetspeak_iff:
  "contains_leetspeak U text \<longleftrightarrow> (\<exists>c \<in> set text. is_digit c \<or> c = chr CHR ''_'')"
proof -
  have "atom_ok U no_flags (OneOf [CRange (chr CHR ''0'') (chr CHR ''9''), CChar (chr CHR ''_'')]) c
      \<longleftrightarrow> is_digit c \<or> c = chr CHR ''_''" for c
    by (simp add: chr_simps is_digit_def lit_ok_def)
  then show ?thesis
    by (simp add: contains_leetspeak_def re_search_bool_def re_finditer_def start_state_def
        leet_indicator_def rx_iter_atom list_ex_iff del: atom_ok.simps)
qed

theorem contains_leetspeak_iff_witness:
  "contains_leetspeak ascii_only (ustr ''h3llo'') \<and>
   \<not> contains_leetspeak ascii_only (ustr ''hello'')"
  using contains_leetspeak_iff[of ascii_only "ustr ''h3llo''"]
    contains_leetspeak_iff[of ascii_only "ustr ''hello''"]
  by (simp add: ustr_def is_digit_def chr_simps)

subsection \<open>Totality of the pipeline\<close>

text \<open>
  Two syntactic checks on a pattern: it has no capturing group, and every match of it
  closes the capturing group. A lookahead hands back the position it started from, so
  it counts as having no group.
\<close>

fun groupless :: "regex \<Rightarrow> bool" where
  "groupless (Grp r) = False"
| "groupless (Seq r1 r2) = (groupless r1 \<and> groupless r2)"
| "groupless (Alt r1 r2) = (groupless r1 \<and> groupless r2)"
| "groupless r = True"

fun sets_group :: "regex \<Rightarrow> bool" where
  "sets_group (Grp r) = True"
| "sets_group (Seq r1 r2) = (if sets_group r2 then True else sets_group r1 \<and> groupless r2)"
| "sets_group (Alt r1 r2) = (sets_group r1 \<and> sets_group r2)"
| "sets_group r = False"

lemma rep_states_grp: "m \<in> set (rep_states U f a p pv cs g) \<Longrightarrow> grp m = g"
  by (induction cs arbitrary: p pv) (auto split: if_splits)

lemma rx_m_groupless:
  "groupless r \<Longrightarrow> m \<in> set (rx_m U f r st) \<Longrightarrow> grp m = grp st"
proof (induction r arbitrary: st m)
  case (Atom a)
  then show ?case
    by (cases st; cases "rest st") (auto split: if_splits)
next
  case (Seq r1 r2)
  from Seq.prems obtain m1 where "m1 \<in> set (rx_m U f r1 st)" "m \<in> set (rx_m U f r2 m1)"
    by auto
  with Seq.IH Seq.prems(1) show ?case
    by fastforce
next
  case (Rep a n g)
  then show ?case
    by (cases st) (auto split: if_splits dest!: in_set_dropD rep_states_grp)
next
  case Eol
  then show ?case
    by (cases st; cases "rest st") (auto split: if_splits)
next
  case (Alt r1 r2)
  then show ?case
    by auto
next
  case Bol
  then show ?case
    by (cases st) (auto split: if_splits)
next
  case EndZ
  then show ?case
    by (cases st) (auto split: if_splits)
next
  case WordB
  then show ?case
    by (cases st) (auto split: if_splits)
next
  case (Look r)
  then show ?case
    by (auto split: if_splits)
qed simp_all

lemma set_group_grp: "grp (set_group a m) = Some (a, pos m)"
  by (cases m) simp

lemma rx_m_sets_group:
  "sets_group r \<Longrightarrow> m \<in> set (rx_m U f r st) \<Longrightarrow> grp m \<noteq> None"
proof (induction r arbitrary: st m)
  case (Seq r1 r2)
  from Seq.prems obtain m1 where m1: "m1 \<in> set (rx_m U f r1 st)" and m: "m \<in> set (rx_m U f r2 m1)"
    by auto
  show ?case
  proof (cases "sets_group r2")
    case True
    from Seq.IH(2)[OF True m] show ?thesis .
  next
    case False
    with Seq.prems(1) have s1: "sets_group r1" and g2: "groupless r2"
      by simp_all
    from rx_m_groupless[OF g2 m] Seq.IH(1)[OF s1 m1] show ?thesis
      by simp
  qed
next
  case (Grp r)
  then show ?case
    by (auto simp: set_group_grp)
qed auto

lemma rx_iter_groups:
  "(\<forall>st m. m \<in> set (rx_m U f r st) \<longrightarrow> grp m \<noteq> None) \<Longrightarrow>
   x \<in> set (rx_iter U f r st) \<Longrightarrow> m_group x \<noteq> None"
proof (induction U f r st rule: rx_iter.induct)
  case (1 U f r st)
  show ?case
  proof (cases "rx_m U f r (ungroup st)")
    case Nil
    from "1.prems"(2) Nil have "rest st \<noteq> [] \<and> x \<in> set (rx_iter U f r (advance st))"
      by (subst (asm) rx_iter.simps) (simp split: if_splits)
    then have ne: "rest st \<noteq> []" and x: "x \<in> set (rx_iter U f r (advance st))"
      by simp_all
    from "1.IH"(1)[OF Nil ne "1.prems"(1) x] show ?thesis .
  next
    case (Cons m ms)
    then have "m \<in> set (rx_m U f r (ungroup st))"
      by simp
    with "1.prems"(1) have g: "grp m \<noteq> None"
      by blast
    from "1.prems"(2) Cons have
      "x = RMatch (pos st) (pos m) (grp m) \<or>
       (pos m = pos st \<and> rest st \<noteq> [] \<and> x \<in> set (rx_iter U f r (advance st))) \<or>
       (pos m \<noteq> pos st \<and> x \<in> set (rx_iter U f r m))"
      by (subst (asm) rx_iter.simps) (auto split: if_splits)
    then show ?thesis
    proof (elim disjE conjE)
      assume "x = RMatch (pos st) (pos m) (grp m)"
      with g show ?thesis
        by simp
    next
      assume "pos m = pos st" "rest st \<noteq> []" "x \<in> set (rx_iter U f r (advance st))"
      from "1.IH"(2)[OF Cons this(1) this(2) "1.prems"(1) this(3)] show ?thesis .
    next
      assume "pos m \<noteq> pos st" "x \<in> set (rx_iter U f r m)"
      from "1.IH"(3)[OF Cons this(1) "1.prems"(1) this(2)] show ?thesis .
    qed
  qed
qed


lemma house_pattern_sets_group: "sets_group house_pattern"
  by (simp add: house_pattern_def seqs_def lazy_group_def)

lemma house_loop_total:
  "(\<forall>x \<in> set ms. m_group x \<noteq> None) \<Longrightarrow> \<exists>d. house_loop U response ms = Inr d"
proof (induction ms)
  case Nil
  then show ?case
    by simp
next
  case (Cons m ms)
  then obtain d where d: "house_loop U response ms = Inr d"
    by auto
  from Cons.prems obtain a b where "m_group m = Some (a, b)"
    by auto
  with d show ?case
    by (simp add: group1_def Let_def)
qed

lemma house_dialogue_total:
  "\<exists>d. house_loop U response
          (re_finditer U fl_dotall_multiline_ignorecase house_pattern response) = Inr d"
proof (rule house_loop_total, rule ballI)
  fix x
  assume "x \<in> set (re_finditer U fl_dotall_multiline_ignorecase house_pattern response)"
  then show "m_group x \<noteq> None"
    unfolding re_finditer_def
    by (rule rx_iter_groups[rotated]) (auto dest: rx_m_sets_group[OF house_pattern_sets_group])
qed

text \<open>
  C6: for every input string, including the empty string, whitespace-only strings, and
  strings with unbalanced fences, unterminated bullets or unknown speaker labels,
  \<open>extract_leetspeak\<close> and \<open>process_response\<close> terminate without raising an exception
  and return a string. The functions of the model are total, and the one call that can
  raise, \<open>match.group(1).strip()\<close>, never meets \<open>None\<close>, because every match of
  \<open>house_pattern\<close> closes group 1.
\<close>

theorem pipeline_total:
  "(\<exists>out. extract_leetspeak U response = Inr out) \<and>
   (\<exists>out. process_response U tbl response = Inr out)"
proof -
  obtain d where d: "house_loop U (re_sub U no_flags fence_re [] response)
      (re_finditer U fl_dotall_multiline_ignorecase house_pattern
        (re_sub U no_flags fence_re [] response)) = Inr d"
    using house_dialogue_total by blast
  have e: "\<exists>out. extract_leetspeak U response = Inr out"
    by (simp add: extract_leetspeak_def Let_def d split: option.splits)
  then show ?thesis
    by (auto simp: process_response_def)
qed

theorem pipeline_total_witness:
  "(\<exists>out. extract_leetspeak ascii_only (ustr ''h3y'') = Inr out) \<and>
   (\<exists>out. process_response ascii_only basic_table (ustr ''h3y'') = Inr out)"
  by (rule pipeline_total)

subsection \<open>The characters that \<open>from_leetspeak\<close> returns\<close>

lemma replace_scan_single:
  "replace_scan [k] [v] s = map (\<lambda>c. if c = k then v else c) s"
proof (induction s)
  case Nil
  show ?case
    by (subst replace_scan.simps) simp
next
  case (Cons c cs)
  then show ?case
    by (subst replace_scan.simps) simp
qed

lemma replace_single: "replace [k] [v] s = map (\<lambda>c. if c = k then v else c) s"
  by (simp add: replace_def replace_scan_single)

lemma foldl_replace_absent:
  assumes "\<forall>(k, v) \<in> set ps. \<exists>a b. k = [a] \<and> v = [b] \<and> b \<notin> K"
    and "c \<in> K" and "[c] \<in> fst ` set ps"
  shows "c \<notin> set (foldl (\<lambda>result (leet, normal). replace leet normal result) s ps)"
  using assms
proof (induction ps rule: rev_induct)
  case Nil
  then show ?case
    by simp
next
  case (snoc p ps)
  obtain k v where p: "p = (k, v)"
    by (cases p)
  with snoc.prems(1) obtain a b where kv: "k = [a]" "v = [b]" and b: "b \<notin> K"
    by auto
  let ?t = "foldl (\<lambda>result (leet, normal). replace leet normal result) s ps"
  have res: "foldl (\<lambda>result (leet, normal). replace leet normal result) s (ps @ [p])
      = map (\<lambda>x. if x = a then b else x) ?t"
    by (simp add: p kv replace_single)
  show ?case
  proof (cases "c = a")
    case True
    with b snoc.prems(2) show ?thesis
      unfolding res by auto
  next
    case False
    with snoc.prems(3) p kv have "[c] \<in> fst ` set ps"
      by auto
    with snoc.IH snoc.prems(1,2) have "c \<notin> set ?t"
      by auto
    with b snoc.prems(2) show ?thesis
      unfolding res by auto
  qed
qed

lemma extended_reverse_eq:
  "extended_reverse =
     [([48], [111]), ([79], [111]), ([49], [105]), ([73], [105]), ([51], [101]),
      ([69], [101]), ([52], [97]), ([65], [97]), ([55], [116]), ([84], [116]),
      ([95], [32]), ([53], [115]), ([83], [115]), ([54], [103]), ([71], [103]),
      ([56], [98]), ([66], [98]), ([57], [103]), ([50], [122]), ([90], [122])]"
  by (simp add: extended_reverse_def dict_of_def ustr_def)

lemma extended_pass_absent:
  assumes "c \<in> set (ustr ''_OIEATSGBZ0123456789'')"
  shows "c \<notin> set (extended_pass s)"
  unfolding extended_pass_def
proof (rule foldl_replace_absent[where K = "set (ustr ''_OIEATSGBZ0123456789'')"])
  show "\<forall>(k, v) \<in> set extended_reverse.
      \<exists>a b. k = [a] \<and> v = [b] \<and> b \<notin> set (ustr ''_OIEATSGBZ0123456789'')"
    by (simp add: extended_reverse_eq ustr_def)
  show "c \<in> set (ustr ''_OIEATSGBZ0123456789'')"
    by (rule assms)
  show "[c] \<in> fst ` set extended_reverse"
    using assms by (auto simp: extended_reverse_eq ustr_def)
qed

text \<open>A substitution returns characters of the text and of the replacement only.\<close>

lemma rx_sub_chars: "set (rx_sub U f r repl st) \<subseteq> set (rest st) \<union> set repl"
proof (induction U f r repl st rule: rx_sub.induct)
  case (1 U f r repl st)
  have adv: "set (rest (advance st)) \<subseteq> set (rest st)"
    by (cases st; cases "rest st") auto
  show ?case
  proof (cases "rx_m U f r (ungroup st)")
    case Nil
    show ?thesis
    proof (cases "rest st")
      case Nil': Nil
      with Nil show ?thesis
        by (subst rx_sub.simps) simp
    next
      case (Cons c cs)
      from "1.IH"(1)[OF Nil Cons] adv Cons Nil show ?thesis
        by (subst rx_sub.simps) auto
    qed
  next
    case (Cons m ms)
    then have "m \<in> set (rx_m U f r (ungroup st))"
      by simp
    from rx_m_rest[OF this] have "rest m = drop (pos m - pos st) (rest st)"
      by (cases st) simp
    then have sub: "set (rest m) \<subseteq> set (rest st)"
      by (simp add: set_drop_subset)
    show ?thesis
    proof (cases "pos m = pos st")
      case True
      show ?thesis
      proof (cases "rest st")
        case Nil
        with Cons True show ?thesis
          by (subst rx_sub.simps) simp
      next
        case Cons': (Cons c cs)
        from "1.IH"(2)[OF Cons True Cons'] adv Cons Cons' True show ?thesis
          by (subst rx_sub.simps) auto
      qed
    next
      case False
      from "1.IH"(3)[OF Cons False] sub Cons False show ?thesis
        by (subst rx_sub.simps) auto
    qed
  qed
qed

lemma re_sub_chars: "set (re_sub U f r repl s) \<subseteq> set s \<union> set repl"
  using rx_sub_chars[of U f r repl "start_state s"] by (simp add: re_sub_def start_state_def)

lemma foldl_re_sub_chars:
  "\<forall>(k, v) \<in> set ps. set v \<subseteq> D \<Longrightarrow>
   set (foldl (\<lambda>result (leet, normal). re_sub U f (pat leet) normal result) s ps) \<subseteq> set s \<union> D"
proof (induction ps arbitrary: s)
  case Nil
  then show ?case
    by simp
next
  case (Cons p ps)
  obtain k v where p: "p = (k, v)"
    by (cases p)
  with Cons.prems have v: "set v \<subseteq> D" and rest: "\<forall>(k, v) \<in> set ps. set v \<subseteq> D"
    by auto
  from Cons.IH[OF rest, of "re_sub U f (pat k) v s"] re_sub_chars[of U f "pat k" v s] v
  show ?case
    by (auto simp: p)
qed

lemma numeric_fixes_digits: "\<forall>(k, v) \<in> set numeric_fixes. set v \<subseteq> set (ustr ''0123456789'')"
  by (simp add: numeric_fixes_def dict_of_def ustr_def)

lemma numeric_pass_chars: "set (numeric_pass U s) \<subseteq> set s \<union> set (ustr ''0123456789'')"
  unfolding numeric_pass_def by (rule foldl_re_sub_chars[OF numeric_fixes_digits])

text \<open>
  C10: for every input string, the output of \<open>from_leetspeak\<close> contains no underscore
  and no occurrence of the uppercase letters O, I, E, A, T, S, G, B or Z: the extended
  pass replaces every occurrence of each of these characters, and the later numeric
  pass only inserts digit strings.
\<close>

theorem from_leetspeak_no_extended_keys:
  "set (from_leetspeak U tbl leetspeak) \<inter> set (ustr ''_OIEATSGBZ'') = {}"
proof -
  have "c \<notin> set (from_leetspeak U tbl leetspeak)" if c: "c \<in> set (ustr ''_OIEATSGBZ'')" for c
  proof (cases "leetspeak = []")
    case True
    then show ?thesis
      by (simp add: from_leetspeak_def)
  next
    case False
    from c have k: "c \<in> set (ustr ''_OIEATSGBZ0123456789'')" and d: "c \<notin> set (ustr ''0123456789'')"
      by (auto simp: ustr_def)
    from extended_pass_absent[OF k] have "c \<notin> set (extended_pass (primary_pass tbl leetspeak))" .
    with numeric_pass_chars[of U "extended_pass (primary_pass tbl leetspeak)"] d False
    show ?thesis
      by (auto simp: from_leetspeak_def)
  qed
  then show ?thesis
    by auto
qed

theorem from_leetspeak_no_extended_keys_witness:
  "set (from_leetspeak ascii_only basic_table (ustr ''H3LLO_W0RLD'')) \<inter> set (ustr ''_OIEATSGBZ'') = {}"
  by (rule from_leetspeak_no_extended_keys)


subsection \<open>The outcomes of the full-bullet-body helper\<close>

lemma bullet_points_nonempty: "x \<in> set (bullet_points U s ms) \<Longrightarrow> x \<noteq> []"
  by (induction U s ms rule: bullet_points.induct) (auto simp: Let_def split: if_splits)

lemma join_nonempty: "xs \<noteq> [] \<Longrightarrow> \<forall>x \<in> set xs. x \<noteq> [] \<Longrightarrow> join sep xs \<noteq> []"
  by (induction sep xs rule: join.induct) auto

text \<open>
  C8 (as amended): \<open>_extract_full_bullet_content\<close> has two kinds of result only. It
  returns \<open>None\<close> when the text holds no bullet marker, it returns the same \<open>None\<close> when
  markers are found but every body trims to the empty string, and every string it
  returns is non-empty. The two outcomes "no bullets" and "found, but empty" are
  therefore the same value.
\<close>

theorem bullet_content_outcomes:
  "(re_finditer U no_flags marker_re text = [] \<longrightarrow> extract_full_bullet_content U text = None) \<and>
   (bullet_points U text (re_finditer U no_flags marker_re text) = [] \<longrightarrow>
      extract_full_bullet_content U text = None) \<and>
   (\<forall>s. extract_full_bullet_content U text = Some s \<longrightarrow> s \<noteq> [])"
  using join_nonempty[of "bullet_points U text (re_finditer U no_flags marker_re text)" "[nl, nl]"]
    bullet_points_nonempty[of _ U "text" "re_finditer U no_flags marker_re text"]
  by (auto simp: extract_full_bullet_content_def Let_def split: if_splits)

theorem bullet_content_outcomes_witness:
  "re_finditer ascii_only no_flags marker_re (ustr ''abc'') = [] \<and>
   extract_full_bullet_content ascii_only (ustr ''abc'') = None \<and>
   bullet_points ascii_only (ustr ''* '') (re_finditer ascii_only no_flags marker_re (ustr ''* '')) = [] \<and>
   extract_full_bullet_content ascii_only (ustr ''* '') = None \<and>
   extract_full_bullet_content ascii_only (ustr ''* a'' @ [nl] @ ustr ''- b'')
     = Some (ustr ''a'' @ [nl, nl] @ ustr ''b'') \<and>
   ustr ''a'' @ [nl, nl] @ ustr ''b'' \<noteq> []"
proof -
  have a: "re_finditer ascii_only no_flags marker_re (ustr ''abc'') = []"
    by code_simp
  with bullet_content_outcomes[of ascii_only "ustr ''abc''"]
  have b: "extract_full_bullet_content ascii_only (ustr ''abc'') = None"
    by blast
  have c: "bullet_points ascii_only (ustr ''* '')
      (re_finditer ascii_only no_flags marker_re (ustr ''* '')) = []"
    by code_simp
  with bullet_content_outcomes[of ascii_only "ustr ''* ''"]
  have d: "extract_full_bullet_content ascii_only (ustr ''* '') = None"
    by blast
  have e: "extract_full_bullet_content ascii_only (ustr ''* a'' @ [nl] @ ustr ''- b'')
      = Some (ustr ''a'' @ [nl, nl] @ ustr ''b'')"
    by code_simp
  with bullet_content_outcomes[of ascii_only "ustr ''* a'' @ [nl] @ ustr ''- b''"]
  have f: "ustr ''a'' @ [nl, nl] @ ustr ''b'' \<noteq> []"
    by blast
  from a b c d e f show ?thesis
    by blast
qed

text \<open>
  The text \<open>abc\<close> holds no bullet marker; the text \<open>* \<close> holds one marker whose body
  is empty; the helper returns the same value for both.
\<close>

theorem bullet_outcomes_not_distinct:
  "re_finditer ascii_only no_flags marker_re (ustr ''abc'') = [] \<and>
   re_finditer ascii_only no_flags marker_re (ustr ''* '') \<noteq> [] \<and>
   bullet_points ascii_only (ustr ''* '') (re_finditer ascii_only no_flags marker_re (ustr ''* '')) = [] \<and>
   extract_full_bullet_content ascii_only (ustr ''abc'')
     = extract_full_bullet_content ascii_only (ustr ''* '')"
  by code_simp


subsection \<open>The pipeline on the scenario of the specification\<close>

lemma scenario_eval:
  "process_response U basic_table scenario_response = Inr (ustr ''the answer 15 apple and orange.'')"
  "process_response U [] scenario_response = Inr (ustr ''the answer 15 apple and orange.'')"
  by code_simp+

text \<open>
  C2 (as amended): for the raw response
  \<open>HOUSE: The answer is 4pple and 0range. [SCENE END]\<close> the pipeline returns
  \<open>the answer 15 apple and orange.\<close>, with the basic table as with an empty one: the
  extended table maps 4 to a and 0 to o, and also T to t; the numeric pass rewrites the
  word \<open>is\<close> (which the extended pass leaves as it is) to 15; the label and the scene
  marker are removed.
\<close>

theorem process_response_scenario:
  "process_response U basic_table scenario_response = Inr (ustr ''the answer 15 apple and orange.'') \<and>
   process_response U [] scenario_response = Inr (ustr ''the answer 15 apple and orange.'')"
  by (simp only: scenario_eval)

theorem process_response_scenario_witness:
  "process_response ascii_only basic_table scenario_response
     = Inr (ustr ''the answer 15 apple and orange.'') \<and>
   process_response ascii_only [] scenario_response
     = Inr (ustr ''the answer 15 apple and orange.'')"
  by (rule process_response_scenario)

text \<open>The result is not the string \<open>The answer is apple and orange.\<close>\<close>

theorem process_response_scenario_counterexample:
  "process_response ascii_only basic_table
     (ustr ''HOUSE: The answer is 4pple and 0range. [SCENE END]'')
   \<noteq> Inr (ustr ''The answer is apple and orange.'')"
proof -
  have "ustr ''the answer 15 apple and orange.'' \<noteq> ustr ''The answer is apple and orange.''"
    by code_simp
  with scenario_eval(1)[of ascii_only] show ?thesis
    by (simp add: scenario_response_def)
qed


subsection \<open>Bullets after the speaker label\<close>

text \<open>
  C3: on the input \<open>HOUSE: * f00 \<close>, newline, \<open>* b4r\<close> the extraction returns \<open>b4r\<close> alone.
  The lookahead of \<open>house_pattern\<close> asks for a line start or a newline before the end of
  the text, so dialogue on the last line of a text that does not end in a newline is
  never found by strategy 1, and the marker pattern of strategy 2 has no \<open>MULTILINE\<close>
  flag, so the \<open>*\<close> after the label is no marker. With a final newline the same
  input gives the two bodies \<open>f00\<close> and \<open>b4r\<close> joined by a blank line.
\<close>

theorem extract_bullets_after_label:
  "extract_leetspeak U (ustr ''HOUSE: * f00 '' @ [nl] @ ustr ''* b4r'') = Inr (ustr ''b4r'') \<and>
   extract_leetspeak U (ustr ''HOUSE: * f00 '' @ [nl] @ ustr ''* b4r'' @ [nl])
     = Inr (ustr ''f00'' @ [nl, nl] @ ustr ''b4r'')"
  by code_simp

end
